theory Spec2Isabelle
  imports Complex_Main "HOL-Library.Monad_Syntax"
begin

section \<open>The session registry of ralph-tui\<close>

text \<open>
  The registry module keeps one JSON document, \<^verbatim>\<open>~/.config/ralph-tui/sessions.json\<close>,
  and every operation is a load of the whole document, a change in memory and a save of
  the whole document. The development below embeds the functions of the module that the
  properties of the last section are about, and \<^verbatim>\<open>sendNotification\<close>.

  \<^item> A JavaScript string is a \<^typ>\<open>string\<close>; a character stands for one code unit. Nothing
    below depends on how many code units there are.
  \<^item> The file system is a record that is passed in and returned. A rejected promise or a
    thrown exception is the \<open>Inl\<close> of a sum.
  \<^item> The text of the file is represented by the value \<^verbatim>\<open>JSON.parse\<close> makes of it:
    \<^verbatim>\<open>JSON.stringify\<close> and \<^verbatim>\<open>JSON.parse\<close> belong to the platform, and for a value built
    from objects, strings, booleans and the number 1 the second inverts the first.
  \<^item> The clock (\<^verbatim>\<open>new Date().toISOString()\<close>) is an argument.
\<close>

subsection \<open>Values read from the file\<close>

text \<open>
  What \<^verbatim>\<open>JSON.parse\<close> returns. An object is the list of its own properties in enumeration
  order, each key once; a number is a finite double, hence a rational.
\<close>

datatype json =
    JNull
  | JBool bool
  | JNum rat
  | JStr string
  | JArr "json list"
  | JObj "(string \<times> json) list"

datatype error =
    NotFound      \<comment> \<open>\<^verbatim>\<open>access\<close> rejects: no such file\<close>
  | ReadError     \<comment> \<open>\<^verbatim>\<open>readFile\<close> rejects\<close>
  | SyntaxError   \<comment> \<open>\<^verbatim>\<open>JSON.parse\<close> throws\<close>
  | TypeError     \<comment> \<open>a property of \<^verbatim>\<open>null\<close> is used, or a value has no conversion to a string\<close>
  | WriteError    \<comment> \<open>\<^verbatim>\<open>mkdir\<close> or \<^verbatim>\<open>writeFile\<close> rejects\<close>
  | OutsideType   \<comment> \<open>the document is no value of the TypeScript interface: not modelled\<close>

text \<open>
  \<^verbatim>\<open>parsed.version\<close> and \<^verbatim>\<open>parsed.sessions\<close>: reading a property of \<^verbatim>\<open>null\<close> throws, an
  object gives its own property, and every other value gives \<^verbatim>\<open>undefined\<close> (\<open>None\<close>). No
  built-in prototype has a property of either name.
\<close>

fun get_prop :: "json \<Rightarrow> string \<Rightarrow> error + json option" where
  "get_prop JNull name = Inl TypeError"
| "get_prop (JObj ps) name = Inr (map_of ps name)"
| "get_prop (JBool b) name = Inr None"
| "get_prop (JNum n) name = Inr None"
| "get_prop (JStr s) name = Inr None"
| "get_prop (JArr xs) name = Inr None"

text \<open>The \<^verbatim>\<open>typeof\<close> operator; \<^verbatim>\<open>typeof null\<close> is \<^verbatim>\<open>"object"\<close>, as for an array.\<close>

fun typeof :: "json option \<Rightarrow> string" where
  "typeof None = ''undefined''"
| "typeof (Some JNull) = ''object''"
| "typeof (Some (JBool b)) = ''boolean''"
| "typeof (Some (JNum n)) = ''number''"
| "typeof (Some (JStr s)) = ''string''"
| "typeof (Some (JArr xs)) = ''object''"
| "typeof (Some (JObj ps)) = ''object''"

subsection \<open>The data model\<close>

text \<open>
  Modelled from the spec: the type \<^verbatim>\<open>SessionStatus\<close> is imported from \<^verbatim>\<open>./types.js\<close>, which
  is not among the sources; the specification lists its five values.
\<close>

datatype SessionStatus = running | paused | interrupted | completed | failed

record SessionRegistryEntry =
  sessionId :: string
  cwd :: string
  status :: SessionStatus
  startedAt :: string
  updatedAt :: string
  agentPlugin :: string
  trackerPlugin :: string
  epicId :: "string option"
  prdPath :: "string option"
  sandbox :: "bool option"

text \<open>
  \<^verbatim>\<open>version\<close> has the literal type \<^verbatim>\<open>1\<close>, so a value of the interface is determined by
  its \<^verbatim>\<open>sessions\<close>: the own properties of the object in enumeration order.
\<close>

type_synonym sessions_map = "(string \<times> SessionRegistryEntry) list"

record SessionRegistry =
  sessions :: sessions_map

fun status_string :: "SessionStatus \<Rightarrow> string" where
  "status_string running = ''running''"
| "status_string paused = ''paused''"
| "status_string interrupted = ''interrupted''"
| "status_string completed = ''completed''"
| "status_string failed = ''failed''"

definition status_of_string :: "string \<Rightarrow> SessionStatus option" where
  "status_of_string s =
     (if s = ''running'' then Some running
      else if s = ''paused'' then Some paused
      else if s = ''interrupted'' then Some interrupted
      else if s = ''completed'' then Some completed
      else if s = ''failed'' then Some failed
      else None)"

text \<open>The JavaScript value of an entry; an optional field that is unset is no property.\<close>

definition optional :: "string \<Rightarrow> ('a \<Rightarrow> json) \<Rightarrow> 'a option \<Rightarrow> (string \<times> json) list" where
  "optional name f v = (case v of None \<Rightarrow> [] | Some x \<Rightarrow> [(name, f x)])"

definition entry_json :: "SessionRegistryEntry \<Rightarrow> json" where
  "entry_json e = JObj
     ([(''sessionId'', JStr (sessionId e)),
       (''cwd'', JStr (cwd e)),
       (''status'', JStr (status_string (status e))),
       (''startedAt'', JStr (startedAt e)),
       (''updatedAt'', JStr (updatedAt e)),
       (''agentPlugin'', JStr (agentPlugin e)),
       (''trackerPlugin'', JStr (trackerPlugin e))]
      @ optional ''epicId'' JStr (epicId e)
      @ optional ''prdPath'' JStr (prdPath e)
      @ optional ''sandbox'' JBool (sandbox e))"

definition registry_json :: "SessionRegistry \<Rightarrow> json" where
  "registry_json registry = JObj
     [(''version'', JNum 1),
      (''sessions'', JObj (map (\<lambda>(k, e). (k, entry_json e)) (sessions registry)))]"

text \<open>The document \<^verbatim>\<open>{ version: 1, sessions: {} }\<close>.\<close>

definition empty_registry :: json where
  "empty_registry = JObj [(''version'', JNum 1), (''sessions'', JObj [])]"

text \<open>
  The cast \<^verbatim>\<open>as SessionRegistry\<close> checks nothing. The operations below are modelled on
  the documents that are values of the interface, \<open>registry_json registry\<close>, and on the
  document whose \<^verbatim>\<open>sessions\<close> is \<^verbatim>\<open>null\<close>. \<open>as_entry\<close> and \<open>as_sessions\<close> read a value of the
  interface back and give \<open>None\<close> on every other one; what the code does with a document
  that passes the check of \<open>loadRegistry\<close> and is neither is left out (\<open>OutsideType\<close>).
\<close>

fun str_of :: "json \<Rightarrow> string option" where
  "str_of (JStr s) = Some s"
| "str_of _ = None"

fun bool_of :: "json \<Rightarrow> bool option" where
  "bool_of (JBool b) = Some b"
| "bool_of _ = None"

definition as_entry :: "json \<Rightarrow> SessionRegistryEntry option" where
  "as_entry j =
     (case j of
        JObj ps \<Rightarrow>
          do {
            i \<leftarrow> map_of ps ''sessionId'' \<bind> str_of;
            c \<leftarrow> map_of ps ''cwd'' \<bind> str_of;
            s \<leftarrow> map_of ps ''status'' \<bind> str_of \<bind> status_of_string;
            t \<leftarrow> map_of ps ''startedAt'' \<bind> str_of;
            u \<leftarrow> map_of ps ''updatedAt'' \<bind> str_of;
            a \<leftarrow> map_of ps ''agentPlugin'' \<bind> str_of;
            r \<leftarrow> map_of ps ''trackerPlugin'' \<bind> str_of;
            let e = \<lparr>sessionId = i, cwd = c, status = s, startedAt = t, updatedAt = u,
                     agentPlugin = a, trackerPlugin = r,
                     epicId = map_of ps ''epicId'' \<bind> str_of,
                     prdPath = map_of ps ''prdPath'' \<bind> str_of,
                     sandbox = map_of ps ''sandbox'' \<bind> bool_of\<rparr>;
            if entry_json e = j then Some e else None
          }
      | _ \<Rightarrow> None)"

fun as_sessions :: "(string \<times> json) list \<Rightarrow> sessions_map option" where
  "as_sessions [] = Some []"
| "as_sessions ((k, v) # ps) =
     (case as_entry v of
        None \<Rightarrow> None
      | Some e \<Rightarrow> map_option (\<lambda>ss. (k, e) # ss) (as_sessions ps))"

text \<open>
  \<^verbatim>\<open>registry.sessions\<close> as the operations use it, on the value \<open>loadRegistry\<close> returned.
  Every operation reads, writes, deletes or enumerates a property of it first, which
  throws a \<^verbatim>\<open>TypeError\<close> when it is \<^verbatim>\<open>null\<close>.
\<close>

definition sessions_of :: "json \<Rightarrow> error + sessions_map" where
  "sessions_of registry =
     (case get_prop registry ''sessions'' of
        Inr (Some JNull) \<Rightarrow> Inl TypeError
      | Inr (Some (JObj ps)) \<Rightarrow>
          (case as_sessions ps of
             Some ss \<Rightarrow>
               if registry = registry_json \<lparr>sessions = ss\<rparr> \<and> distinct (map fst ss)
               then Inr ss else Inl OutsideType
           | None \<Rightarrow> Inl OutsideType)
      | _ \<Rightarrow> Inl OutsideType)"

subsection \<open>The file system\<close>

datatype file_state =
    Absent
  | Unreadable
  | Garbage         \<comment> \<open>text that \<^verbatim>\<open>JSON.parse\<close> rejects\<close>
  | Json json       \<comment> \<open>text that \<^verbatim>\<open>JSON.parse\<close> maps to this value\<close>

record fs =
  dir_exists :: bool      \<comment> \<open>\<^verbatim>\<open>REGISTRY_DIR\<close> exists\<close>
  registry_file :: file_state      \<comment> \<open>the file at \<^verbatim>\<open>getRegistryPath()\<close>\<close>
  writable :: bool        \<comment> \<open>\<^verbatim>\<open>mkdir\<close> and \<^verbatim>\<open>writeFile\<close> succeed\<close>
  writes :: nat           \<comment> \<open>how many times \<^verbatim>\<open>writeFile\<close> has written the file\<close>

definition ensureRegistryDir :: "fs \<Rightarrow> error + fs" where
  "ensureRegistryDir s =
     (if dir_exists s then Inr s
      else if writable s then Inr (s\<lparr>dir_exists := True\<rparr>)
      else Inl WriteError)"

definition writeFile :: "json \<Rightarrow> fs \<Rightarrow> error + fs" where
  "writeFile content s =
     (if writable s then Inr (s\<lparr>registry_file := Json content, writes := Suc (writes s)\<rparr>)
      else Inl WriteError)"

text \<open>The body of the \<^verbatim>\<open>try\<close> block of \<^verbatim>\<open>loadRegistry\<close>.\<close>

definition try_load :: "fs \<Rightarrow> error + json" where
  "try_load s =
     (case registry_file s of
        Absent \<Rightarrow> Inl NotFound
      | Unreadable \<Rightarrow> Inl ReadError
      | Garbage \<Rightarrow> Inl SyntaxError
      | Json parsed \<Rightarrow>
          (case get_prop parsed ''version'' of
             Inl e \<Rightarrow> Inl e
           | Inr version \<Rightarrow>
               if version \<noteq> Some (JNum 1) then Inr empty_registry
               else
                 (case get_prop parsed ''sessions'' of
                    Inl e \<Rightarrow> Inl e
                  | Inr sessions_field \<Rightarrow>
                      if typeof sessions_field \<noteq> ''object'' then Inr empty_registry
                      else Inr parsed)))"

definition loadRegistry :: "fs \<Rightarrow> json" where
  "loadRegistry s = (case try_load s of Inl e \<Rightarrow> empty_registry | Inr registry \<Rightarrow> registry)"

definition saveRegistry :: "SessionRegistry \<Rightarrow> fs \<Rightarrow> error + fs" where
  "saveRegistry registry s =
     (case ensureRegistryDir s of
        Inl e \<Rightarrow> Inl e
      | Inr s' \<Rightarrow> writeFile (registry_json registry) s')"

subsection \<open>The sessions object\<close>

text \<open>
  \<^verbatim>\<open>registry.sessions\<close> is an ordinary object, made by \<^verbatim>\<open>JSON.parse\<close> or by the literal
  \<^verbatim>\<open>{}\<close>, so its prototype is \<^verbatim>\<open>Object.prototype\<close>. A read \<^verbatim>\<open>sessions[id]\<close> finds an own
  property first and a property of the prototype otherwise; \<^verbatim>\<open>delete\<close>, \<^verbatim>\<open>Object.values\<close>,
  \<^verbatim>\<open>Object.entries\<close> and \<^verbatim>\<open>JSON.stringify\<close> see own properties only. The built-in objects
  are taken as the platform starts them.
\<close>

definition Object_prototype_names :: "string list" where
  "Object_prototype_names =
     [''constructor'', ''__proto__'', ''hasOwnProperty'', ''isPrototypeOf'',
      ''propertyIsEnumerable'', ''toLocaleString'', ''toString'', ''valueOf'',
      ''__defineGetter__'', ''__defineSetter__'', ''__lookupGetter__'', ''__lookupSetter__'']"

datatype 'a property =
    Own 'a        \<comment> \<open>an own property of the object\<close>
  | Inherited     \<comment> \<open>a built-in function, or \<^verbatim>\<open>Object.prototype\<close> itself for \<^verbatim>\<open>__proto__\<close>\<close>
  | Undefined

definition sessions_get :: "(string \<times> 'a) list \<Rightarrow> string \<Rightarrow> 'a property" where
  "sessions_get ss k =
     (case map_of ss k of
        Some v \<Rightarrow> Own v
      | None \<Rightarrow> if k \<in> set Object_prototype_names then Inherited else Undefined)"

text \<open>
  Own property keys are enumerated with the array indices first, in ascending order, and
  the other strings after them in the order of their creation. An array index is the
  decimal numeral of an integer from 0 to \<open>2\<^sup>3\<^sup>2 - 2\<close>.
\<close>

definition is_digit :: "char \<Rightarrow> bool" where
  "is_digit c = (c \<in> set ''0123456789'')"

definition index_value :: "string \<Rightarrow> int" where
  "index_value k = foldl (\<lambda>n c. 10 * n + (of_char c - 48)) 0 k"

definition is_array_index :: "string \<Rightarrow> bool" where
  "is_array_index k =
     (case k of
        [] \<Rightarrow> False
      | c # cs \<Rightarrow> list_all is_digit k \<and> (c \<noteq> CHR ''0'' \<or> cs = []) \<and> index_value k < 4294967295)"

fun insert_key :: "string \<Rightarrow> 'a \<Rightarrow> (string \<times> 'a) list \<Rightarrow> (string \<times> 'a) list" where
  "insert_key k v [] = [(k, v)]"
| "insert_key k v ((k', v') # ps) =
     (if is_array_index k \<and> (\<not> is_array_index k' \<or> index_value k < index_value k')
      then (k, v) # (k', v') # ps
      else (k', v') # insert_key k v ps)"

text \<open>
  The assignment \<^verbatim>\<open>sessions[k] = v\<close>. An own property keeps its place. Without an own
  property of the name, \<^verbatim>\<open>__proto__\<close> reaches the setter of \<^verbatim>\<open>Object.prototype\<close>, which
  makes \<open>v\<close> the prototype of the object and creates no property; every other name
  becomes a new own property.
\<close>

definition sessions_set :: "(string \<times> 'a) list \<Rightarrow> string \<Rightarrow> 'a \<Rightarrow> (string \<times> 'a) list" where
  "sessions_set ss k v =
     (if map_of ss k \<noteq> None then map (\<lambda>(k', v'). if k' = k then (k', v) else (k', v')) ss
      else if k = ''__proto__'' then ss
      else insert_key k v ss)"

text \<open>\<^verbatim>\<open>delete sessions[k]\<close>.\<close>

definition sessions_delete :: "(string \<times> 'a) list \<Rightarrow> string \<Rightarrow> (string \<times> 'a) list" where
  "sessions_delete ss k = filter (\<lambda>(k', v'). k' \<noteq> k) ss"

text \<open>\<^verbatim>\<open>id.startsWith(prefix)\<close>, code unit by code unit.\<close>

fun startsWith :: "string \<Rightarrow> string \<Rightarrow> bool" where
  "startsWith s [] = True"
| "startsWith [] (p # ps) = False"
| "startsWith (c # cs) (p # ps) = (c = p \<and> startsWith cs ps)"

subsection \<open>Mutations\<close>

definition registerSession :: "SessionRegistryEntry \<Rightarrow> fs \<Rightarrow> error + fs" where
  "registerSession entry s =
     (case sessions_of (loadRegistry s) of
        Inl e \<Rightarrow> Inl e
      | Inr ss \<Rightarrow> saveRegistry \<lparr>sessions = sessions_set ss (sessionId entry) entry\<rparr> s)"

text \<open>
  \<open>now\<close> is \<^verbatim>\<open>new Date().toISOString()\<close>. When \<^verbatim>\<open>sessions[sessionId]\<close> is inherited, \<^verbatim>\<open>entry\<close>
  is a built-in object: it is truthy, the two assignments change that object and not
  the registry, and the registry is saved.
\<close>

definition updateRegistryStatus :: "string \<Rightarrow> string \<Rightarrow> SessionStatus \<Rightarrow> fs \<Rightarrow> error + fs" where
  "updateRegistryStatus now sid st s =
     (case sessions_of (loadRegistry s) of
        Inl e \<Rightarrow> Inl e
      | Inr ss \<Rightarrow>
          (case sessions_get ss sid of
             Own entry \<Rightarrow>
               saveRegistry
                 \<lparr>sessions = sessions_set ss sid (entry\<lparr>status := st, updatedAt := now\<rparr>)\<rparr> s
           | Inherited \<Rightarrow> saveRegistry \<lparr>sessions = ss\<rparr> s
           | Undefined \<Rightarrow> Inr s))"

definition unregisterSession :: "string \<Rightarrow> fs \<Rightarrow> error + fs" where
  "unregisterSession sid s =
     (case sessions_of (loadRegistry s) of
        Inl e \<Rightarrow> Inl e
      | Inr ss \<Rightarrow> saveRegistry \<lparr>sessions = sessions_delete ss sid\<rparr> s)"

subsection \<open>Queries\<close>

definition resumableStatuses :: "SessionStatus list" where
  "resumableStatuses = [paused, running, interrupted]"

definition listResumableSessions :: "fs \<Rightarrow> error + SessionRegistryEntry list" where
  "listResumableSessions s =
     (case sessions_of (loadRegistry s) of
        Inl e \<Rightarrow> Inl e
      | Inr ss \<Rightarrow> Inr (filter (\<lambda>entry. status entry \<in> set resumableStatuses) (map snd ss)))"

definition listAllSessions :: "fs \<Rightarrow> error + SessionRegistryEntry list" where
  "listAllSessions s =
     (case sessions_of (loadRegistry s) of
        Inl e \<Rightarrow> Inl e
      | Inr ss \<Rightarrow> Inr (map snd ss))"

definition findSessionsByPrefix :: "string \<Rightarrow> fs \<Rightarrow> error + SessionRegistryEntry list" where
  "findSessionsByPrefix pre s =
     (case sessions_of (loadRegistry s) of
        Inl e \<Rightarrow> Inl e
      | Inr ss \<Rightarrow> Inr (map snd (filter (\<lambda>(k, entry). startsWith k pre) ss)))"

subsection \<open>Maintenance\<close>

text \<open>
  The loop of \<^verbatim>\<open>cleanupStaleRegistryEntries\<close> over \<^verbatim>\<open>Object.entries(registry.sessions)\<close>, a
  list made before the first deletion. \<open>checkSessionExists\<close> is the caller's function;
  a rejection of its promise leaves the loop.
\<close>

fun cleanup_loop ::
  "(string \<Rightarrow> error + bool) \<Rightarrow> sessions_map \<Rightarrow> sessions_map \<Rightarrow> nat \<Rightarrow> error + sessions_map \<times> nat"
where
  "cleanup_loop checkSessionExists [] ss cleaned = Inr (ss, cleaned)"
| "cleanup_loop checkSessionExists ((k, entry) # rest) ss cleaned =
     (case checkSessionExists (cwd entry) of
        Inl e \<Rightarrow> Inl e
      | Inr exists \<Rightarrow>
          if \<not> exists
          then cleanup_loop checkSessionExists rest (sessions_delete ss k) (cleaned + 1)
          else cleanup_loop checkSessionExists rest ss cleaned)"

definition cleanupStaleRegistryEntries :: "(string \<Rightarrow> error + bool) \<Rightarrow> fs \<Rightarrow> error + fs \<times> nat" where
  "cleanupStaleRegistryEntries checkSessionExists s =
     (case sessions_of (loadRegistry s) of
        Inl e \<Rightarrow> Inl e
      | Inr ss \<Rightarrow>
          (case cleanup_loop checkSessionExists ss ss 0 of
             Inl e \<Rightarrow> Inl e
           | Inr (ss', cleaned) \<Rightarrow>
               if cleaned > 0
               then (case saveRegistry \<lparr>sessions = ss'\<rparr> s of
                       Inl e \<Rightarrow> Inl e
                     | Inr s' \<Rightarrow> Inr (s', cleaned))
               else Inr (s, cleaned)))"

subsection \<open>Desktop notifications\<close>

record NotificationOptions =
  title :: string
  body :: string
  icon :: "string option"

text \<open>The object passed to \<^verbatim>\<open>notifier.notify\<close>.\<close>

record notification =
  n_title :: string
  n_message :: string
  n_icon :: "string option"
  n_sound :: bool

text \<open>
  A value that \<^verbatim>\<open>catch (err)\<close> can receive, as far as the \<^verbatim>\<open>catch\<close> block looks at it. The
  block takes \<^verbatim>\<open>err.message\<close> when \<^verbatim>\<open>err instanceof Error\<close> and \<^verbatim>\<open>String(err)\<close> otherwise, and
  puts the result into a template literal. Either conversion gives a string or throws:
  \<^verbatim>\<open>String(Object.create(null))\<close> throws a \<^verbatim>\<open>TypeError\<close>, as does a template literal on a
  message that is a symbol. \<open>None\<close> stands for a conversion that throws.
\<close>

datatype thrown =
    ErrorValue "string option"    \<comment> \<open>an \<^verbatim>\<open>Error\<close>; what the template literal makes of its \<^verbatim>\<open>message\<close>\<close>
  | OtherValue "string option"    \<comment> \<open>any other value; what \<^verbatim>\<open>String\<close> makes of it\<close>

text \<open>The argument of a call of the callback: \<^verbatim>\<open>null\<close>, or an \<^verbatim>\<open>Error\<close> with its message.\<close>

datatype callback_arg =
    NullArg
  | ErrorArg "string option"

text \<open>
  What \<^verbatim>\<open>notifier.notify\<close> does with one call: it may call the callback before it completes,
  it returns or throws, and it may call the callback later, after \<^verbatim>\<open>sendNotification\<close> has
  returned.
\<close>

record notify_outcome =
  calls_during :: "callback_arg list"
  completes :: "thrown option"          \<comment> \<open>\<open>None\<close>: returns; \<open>Some err\<close>: throws \<open>err\<close>\<close>
  calls_after :: "callback_arg list"

definition warning :: "string \<Rightarrow> string" where
  "warning message = ''[notifications] Failed to send notification: '' @ message"

text \<open>
  The callback \<^verbatim>\<open>(err) => { if (err) console.warn(...) }\<close>: its completion, which goes to
  the notifier that called it, and the lines it gives to \<^verbatim>\<open>console.warn\<close>. The template
  literal is evaluated before \<^verbatim>\<open>console.warn\<close> is called.
\<close>

fun callback :: "callback_arg \<Rightarrow> (error + unit) \<times> string list" where
  "callback NullArg = (Inr (), [])"
| "callback (ErrorArg (Some message)) = (Inr (), [warning message])"
| "callback (ErrorArg None) = (Inl TypeError, [])"

text \<open>
  The body of \<^verbatim>\<open>catch (err)\<close>. Nothing stands around the two conversions, so an exception
  of theirs leaves \<^verbatim>\<open>sendNotification\<close>.
\<close>

fun catch_block :: "thrown \<Rightarrow> (error + unit) \<times> string list" where
  "catch_block (ErrorValue (Some message)) = (Inr (), [warning message])"
| "catch_block (ErrorValue None) = (Inl TypeError, [])"
| "catch_block (OtherValue (Some message)) = (Inr (), [warning message])"
| "catch_block (OtherValue None) = (Inl TypeError, [])"

text \<open>
  What the caller sees of the call (\<open>Inr ()\<close> for a normal return, \<open>Inl\<close> for an exception
  that leaves the function), the lines given to \<^verbatim>\<open>console.warn\<close> until then, and the lines
  that later calls of the callback give to it.
\<close>

record sent =
  returned :: "error + unit"
  warned :: "string list"
  warned_later :: "string list"

definition sendNotification :: "(notification \<Rightarrow> notify_outcome) \<Rightarrow> NotificationOptions \<Rightarrow> sent" where
  "sendNotification notify options =
     (let outcome = notify \<lparr>n_title = title options, n_message = body options,
                            n_icon = icon options, n_sound = False\<rparr>;
          during = concat (map (\<lambda>arg. snd (callback arg)) (calls_during outcome));
          later = concat (map (\<lambda>arg. snd (callback arg)) (calls_after outcome))
      in case completes outcome of
           None \<Rightarrow> \<lparr>returned = Inr (), warned = during, warned_later = later\<rparr>
         | Some err \<Rightarrow>
             \<lparr>returned = fst (catch_block err),
              warned = during @ snd (catch_block err),
              warned_later = later\<rparr>)"

subsection \<open>Predicates and example states for the properties\<close>

text \<open>Every key of \<^verbatim>\<open>sessions\<close> is the \<^verbatim>\<open>sessionId\<close> of its entry.\<close>

definition key_invariant :: "sessions_map \<Rightarrow> bool" where
  "key_invariant ss = list_all (\<lambda>(k, entry). k = sessionId entry) ss"

text \<open>The entries a liveness predicate rejects, and the ones it accepts.\<close>

definition stale_entries :: "(string \<Rightarrow> bool) \<Rightarrow> sessions_map \<Rightarrow> sessions_map" where
  "stale_entries isAlive ss = filter (\<lambda>(k, entry). \<not> isAlive (cwd entry)) ss"

definition live_entries :: "(string \<Rightarrow> bool) \<Rightarrow> sessions_map \<Rightarrow> sessions_map" where
  "live_entries isAlive ss = filter (\<lambda>(k, entry). isAlive (cwd entry)) ss"

text \<open>Example states: no registry yet, the two sessions of the specification's scenario, and
  a file whose \<^verbatim>\<open>sessions\<close> is \<^verbatim>\<open>null\<close>.\<close>

definition fresh_fs :: fs where
  "fresh_fs = \<lparr>dir_exists = False, registry_file = Absent, writable = True, writes = 0\<rparr>"

definition entry_a :: SessionRegistryEntry where
  "entry_a = \<lparr>sessionId = ''a'', cwd = ''/x'', status = running,
     startedAt = ''2025-01-01T00:00:00.000Z'', updatedAt = ''2025-01-01T00:00:00.000Z'',
     agentPlugin = ''claude'', trackerPlugin = ''beads'',
     epicId = Some ''epic-1'', prdPath = None, sandbox = Some False\<rparr>"

definition entry_b :: SessionRegistryEntry where
  "entry_b = \<lparr>sessionId = ''b'', cwd = ''/y'', status = completed,
     startedAt = ''2025-01-02T00:00:00.000Z'', updatedAt = ''2025-01-03T00:00:00.000Z'',
     agentPlugin = ''claude'', trackerPlugin = ''json'',
     epicId = None, prdPath = Some ''prd.json'', sandbox = None\<rparr>"

definition two_sessions :: fs where
  "two_sessions = \<lparr>dir_exists = True,
     registry_file = Json (registry_json \<lparr>sessions = [(''a'', entry_a), (''b'', entry_b)]\<rparr>),
     writable = True, writes = 0\<rparr>"

definition null_sessions :: fs where
  "null_sessions = \<lparr>dir_exists = True,
     registry_file = Json (JObj [(''version'', JNum 1), (''sessions'', JNull)]),
     writable = True, writes = 0\<rparr>"

text \<open>The file system after one save of the empty registry.\<close>

definition once_saved :: fs where
  "once_saved = fresh_fs\<lparr>dir_exists := True, registry_file := Json empty_registry, writes := 1\<rparr>"


definition throws_error :: "notification \<Rightarrow> notify_outcome" where
  "throws_error n =
     \<lparr>calls_during = [], completes = Some (ErrorValue (Some ''spawn ENOENT'')), calls_after = []\<rparr>"

section \<open>Properties\<close>

subsection \<open>The document and its JavaScript value\<close>

lemma status_of_string_status_string: "status_of_string (status_string st) = Some st"
  by (cases st) (simp_all add: status_of_string_def)

text \<open>Reading back the value of an entry gives the entry, and only such values are read.\<close>

lemma as_entry_entry_json: "as_entry (entry_json e) = Some e"
proof -
  obtain ps where ps: "entry_json e = JObj ps" by (simp add: entry_json_def)
  have fields:
    "map_of ps ''sessionId'' = Some (JStr (sessionId e))"
    "map_of ps ''cwd'' = Some (JStr (cwd e))"
    "map_of ps ''status'' = Some (JStr (status_string (status e)))"
    "map_of ps ''startedAt'' = Some (JStr (startedAt e))"
    "map_of ps ''updatedAt'' = Some (JStr (updatedAt e))"
    "map_of ps ''agentPlugin'' = Some (JStr (agentPlugin e))"
    "map_of ps ''trackerPlugin'' = Some (JStr (trackerPlugin e))"
    using ps by (auto simp: entry_json_def)
  have opt:
    "map_of ps ''epicId'' \<bind> str_of = epicId e"
    "map_of ps ''prdPath'' \<bind> str_of = prdPath e"
    "map_of ps ''sandbox'' \<bind> bool_of = sandbox e"
    using ps by (auto simp: entry_json_def optional_def split: option.splits)
  have rec: "\<lparr>sessionId = sessionId e, cwd = cwd e, status = status e, startedAt = startedAt e,
      updatedAt = updatedAt e, agentPlugin = agentPlugin e, trackerPlugin = trackerPlugin e,
      epicId = epicId e, prdPath = prdPath e, sandbox = sandbox e\<rparr> = e"
    by simp
  have "as_entry (JObj ps) = Some e"
    by (simp add: as_entry_def fields opt status_of_string_status_string rec ps)
  then show ?thesis by (simp add: ps)
qed

lemma as_entry_sound: "as_entry j = Some e \<Longrightarrow> entry_json e = j"
  by (auto simp: as_entry_def Let_def split: json.splits if_splits bind_splits)

lemma as_sessions_map: "as_sessions (map (\<lambda>(k, e). (k, entry_json e)) ss) = Some ss"
  by (induction ss) (auto simp: as_entry_entry_json)

lemma as_sessions_sound:
  "as_sessions ps = Some ss \<Longrightarrow> ps = map (\<lambda>(k, e). (k, entry_json e)) ss"
proof (induction ps arbitrary: ss)
  case Nil
  then show ?case by simp
next
  case (Cons p ps)
  obtain k v where p: "p = (k, v)" by (cases p)
  from Cons.prems p obtain e ss' where e: "as_entry v = Some e"
    and ss': "as_sessions ps = Some ss'" and ss: "ss = (k, e) # ss'"
    by (auto split: option.splits)
  from e have "entry_json e = v" by (rule as_entry_sound)
  with Cons.IH [OF ss'] p ss show ?case by simp
qed

text \<open>The documents the operations are modelled on are the values of the interface.\<close>

lemma sessions_of_registry_json:
  "sessions_of (registry_json r) =
     (if distinct (map fst (sessions r)) then Inr (sessions r) else Inl OutsideType)"
  by (simp add: sessions_of_def registry_json_def as_sessions_map)

lemma sessions_of_sound:
  "sessions_of j = Inr ss \<Longrightarrow> j = registry_json \<lparr>sessions = ss\<rparr> \<and> distinct (map fst ss)"
  by (auto simp: sessions_of_def split: sum.splits option.splits json.splits if_splits)

lemma sessions_of_distinct: "sessions_of j = Inr ss \<Longrightarrow> distinct (map fst ss)"
  by (auto dest: sessions_of_sound)

lemma registry_json_empty: "registry_json \<lparr>sessions = []\<rparr> = empty_registry"
  by (simp add: registry_json_def empty_registry_def)

lemma sessions_of_empty: "sessions_of empty_registry = Inr []"
  using sessions_of_registry_json [of "\<lparr>sessions = []\<rparr>"] by (simp add: registry_json_empty)

subsection \<open>Store I/O\<close>

text \<open>A save succeeds exactly when the file system can be written.\<close>

lemma saveRegistry_eq:
  "saveRegistry r s =
     (if writable s
      then Inr (s\<lparr>dir_exists := True, registry_file := Json (registry_json r), writes := Suc (writes s)\<rparr>)
      else Inl WriteError)"
  by (cases s) (auto simp: saveRegistry_def ensureRegistryDir_def writeFile_def)

lemma loadRegistry_Json_registry:
  "registry_file s = Json (registry_json r) \<Longrightarrow> loadRegistry s = registry_json r"
  by (simp add: loadRegistry_def try_load_def registry_json_def)

lemma loadRegistry_after_save:
  "saveRegistry r s = Inr s' \<Longrightarrow> loadRegistry s' = registry_json r"
  by (auto simp: saveRegistry_eq split: if_splits intro: loadRegistry_Json_registry)

lemma saved_sessions:
  "saveRegistry \<lparr>sessions = ss'\<rparr> s = Inr s' \<Longrightarrow> distinct (map fst ss') \<Longrightarrow>
   sessions_of (loadRegistry s') = Inr ss'"
  by (simp add: loadRegistry_after_save sessions_of_registry_json)

text \<open>Where \<open>loadRegistry\<close> gives the empty document.\<close>

lemma loadRegistry_fail_open:
  "registry_file s = Absent \<or> registry_file s = Unreadable \<or> registry_file s = Garbage \<Longrightarrow>
   loadRegistry s = empty_registry"
  by (auto simp: loadRegistry_def try_load_def)

lemma loadRegistry_wrong_version:
  "registry_file s = Json parsed \<Longrightarrow> get_prop parsed ''version'' \<noteq> Inr (Some (JNum 1)) \<Longrightarrow>
   loadRegistry s = empty_registry"
  by (auto simp: loadRegistry_def try_load_def split: sum.splits)

lemma loadRegistry_sessions_not_object:
  "registry_file s = Json parsed \<Longrightarrow> get_prop parsed ''sessions'' = Inr v \<Longrightarrow>
   typeof v \<noteq> ''object'' \<Longrightarrow> loadRegistry s = empty_registry"
  by (auto simp: loadRegistry_def try_load_def split: sum.splits)

lemma loadRegistry_cases:
  "loadRegistry s = empty_registry \<or> registry_file s = Json (loadRegistry s)"
  by (auto simp: loadRegistry_def try_load_def split: sum.splits file_state.splits)

text \<open>The example states.\<close>

lemma fresh_fs_fields:
  "\<not> dir_exists fresh_fs" "registry_file fresh_fs = Absent" "writable fresh_fs" "writes fresh_fs = 0"
  by (simp_all add: fresh_fs_def)

lemma two_sessions_fields:
  "dir_exists two_sessions" "writable two_sessions" "writes two_sessions = 0"
  by (simp_all add: two_sessions_def)

lemma once_saved_fields:
  "dir_exists once_saved" "registry_file once_saved = Json empty_registry"
  "writable once_saved" "writes once_saved = 1"
  by (simp_all add: once_saved_def fresh_fs_def)

lemma sessions_of_load_fresh: "sessions_of (loadRegistry fresh_fs) = Inr []"
  by (simp add: loadRegistry_fail_open fresh_fs_def sessions_of_empty)

lemma sessions_of_load_two:
  "sessions_of (loadRegistry two_sessions) = Inr [(''a'', entry_a), (''b'', entry_b)]"
  by (simp add: loadRegistry_Json_registry two_sessions_def sessions_of_registry_json)

lemma sessions_of_load_once_saved: "sessions_of (loadRegistry once_saved) = Inr []"
  using loadRegistry_Json_registry [of once_saved "\<lparr>sessions = []\<rparr>"]
  by (simp add: registry_json_empty once_saved_fields sessions_of_empty)

lemma key_invariant_two: "key_invariant [(''a'', entry_a), (''b'', entry_b)]"
  by (simp add: key_invariant_def entry_a_def entry_b_def)

text \<open>Every document that \<open>loadRegistry\<close> returns and that is not the empty one is the
  parsed file itself: an object with version 1 and a \<^verbatim>\<open>sessions\<close> that is an object, an
  array or \<^verbatim>\<open>null\<close>.\<close>

lemma loadRegistry_returns_parsed:
  assumes "loadRegistry s \<noteq> empty_registry"
  shows "\<exists>ps v. registry_file s = Json (JObj ps) \<and> loadRegistry s = JObj ps
     \<and> map_of ps ''version'' = Some (JNum 1) \<and> map_of ps ''sessions'' = Some v
     \<and> (v = JNull \<or> (\<exists>xs. v = JArr xs) \<or> (\<exists>qs. v = JObj qs))"
proof -
  from assms loadRegistry_cases [of s] obtain parsed where f: "registry_file s = Json parsed"
    and l: "loadRegistry s = parsed"
    by auto
  from assms f obtain ps where ps: "parsed = JObj ps"
    by (cases parsed) (auto simp: loadRegistry_def try_load_def)
  from assms f ps have v1: "map_of ps ''version'' = Some (JNum 1)"
    and ty: "typeof (map_of ps ''sessions'') = ''object''"
    by (auto simp: loadRegistry_def try_load_def split: if_splits)
  from ty obtain v where v: "map_of ps ''sessions'' = Some v"
    by (cases "map_of ps ''sessions''") auto
  with ty have "v = JNull \<or> (\<exists>xs. v = JArr xs) \<or> (\<exists>qs. v = JObj qs)"
    by (cases v) auto
  with f l ps v1 v show ?thesis by simp
qed

lemma loadRegistry_array_sessions:
  "loadRegistry (fresh_fs\<lparr>registry_file := Json (JObj [(''version'', JNum 1), (''sessions'', JArr [])])\<rparr>)
     = JObj [(''version'', JNum 1), (''sessions'', JArr [])]"
  by (simp add: loadRegistry_def try_load_def)

text \<open>
  C1. \<open>loadRegistry\<close> has no error result, and it returns the empty document for an absent,
  an unreadable or a non-JSON file, for another version and for a \<^verbatim>\<open>sessions\<close> whose
  \<^verbatim>\<open>typeof\<close> is not \<^verbatim>\<open>"object"\<close> (the lemmas above). The specification says the same of a
  \<^verbatim>\<open>sessions\<close> that is \<^verbatim>\<open>null\<close>. There the test \<^verbatim>\<open>typeof parsed.sessions !== 'object'\<close> lets
  the document through: it is returned as it is, and it is not the empty document.
\<close>

theorem loadRegistry_null_sessions:
  "loadRegistry null_sessions = JObj [(''version'', JNum 1), (''sessions'', JNull)]
   \<and> loadRegistry null_sessions \<noteq> empty_registry"
  by (simp add: loadRegistry_def try_load_def null_sessions_def empty_registry_def)

lemma registerSession_null_sessions: "registerSession entry null_sessions = Inl TypeError"
  by (simp add: registerSession_def sessions_of_def loadRegistry_def try_load_def
      null_sessions_def)

text \<open>
  C2. For a document whose keys are pairwise distinct, as the keys of a JavaScript object
  are, a save that succeeds followed by a load returns the document: as a JavaScript
  value, and read through the interface. The check of \<open>loadRegistry\<close> accepts every
  document that \<open>saveRegistry\<close> writes; the step from the value to the text of the file
  and back is the platform's.
\<close>

theorem save_load_roundtrip:
  assumes "distinct (map fst (sessions doc))" and "saveRegistry doc s = Inr s'"
  shows "loadRegistry s' = registry_json doc \<and> sessions_of (loadRegistry s') = Inr (sessions doc)"
proof -
  from assms(2) have "loadRegistry s' = registry_json doc"
    by (rule loadRegistry_after_save)
  moreover from assms(1) have "sessions_of (registry_json doc) = Inr (sessions doc)"
    by (simp add: sessions_of_registry_json)
  ultimately show ?thesis by simp
qed

theorem save_load_roundtrip_witness:
  "saveRegistry \<lparr>sessions = [(''a'', entry_a), (''b'', entry_b)]\<rparr> fresh_fs = Inr (two_sessions\<lparr>writes := 1\<rparr>)
   \<and> loadRegistry (two_sessions\<lparr>writes := 1\<rparr>) = registry_json \<lparr>sessions = [(''a'', entry_a), (''b'', entry_b)]\<rparr>
   \<and> sessions_of (loadRegistry (two_sessions\<lparr>writes := 1\<rparr>)) = Inr [(''a'', entry_a), (''b'', entry_b)]"
proof -
  have saved: "saveRegistry \<lparr>sessions = [(''a'', entry_a), (''b'', entry_b)]\<rparr> fresh_fs
      = Inr (two_sessions\<lparr>writes := 1\<rparr>)"
    by (simp add: saveRegistry_eq fresh_fs_def two_sessions_def)
  have keys: "distinct (map fst (sessions \<lparr>sessions = [(''a'', entry_a), (''b'', entry_b)]\<rparr>))"
    by simp
  note loaded = save_load_roundtrip [OF keys saved, unfolded SessionRegistry.select_convs]
  from saved loaded show ?thesis by blast
qed

subsection \<open>Assignment and deletion on the sessions object\<close>

lemma set_insert_key: "set (insert_key k v ps) = insert (k, v) (set ps)"
  by (induction ps) (auto split: if_splits)

lemma keys_insert_key: "set (map fst (insert_key k v ps)) = insert k (set (map fst ps))"
  by (simp add: set_insert_key)

lemma distinct_insert_key:
  "distinct (map fst ps) \<Longrightarrow> k \<notin> set (map fst ps) \<Longrightarrow> distinct (map fst (insert_key k v ps))"
proof (induction ps)
  case Nil
  then show ?case by simp
next
  case (Cons p ps)
  obtain k' v' where p: "p = (k', v')" by (cases p)
  from Cons.prems p have "k' \<notin> set (map fst (insert_key k v ps))"
    by (simp only: keys_insert_key) auto
  with Cons p show ?case by auto
qed

lemma keys_replace:
  "map fst (map (\<lambda>(k', v'). if k' = k then (k', v) else (k', v')) ps) = map fst ps"
  by (induction ps) auto

lemma distinct_sessions_set:
  assumes "distinct (map fst ss)"
  shows "distinct (map fst (sessions_set ss k v))"
proof (cases "map_of ss k")
  case None
  then have "k \<notin> set (map fst ss)" by (simp add: map_of_eq_None_iff)
  with assms None show ?thesis
    by (simp add: sessions_set_def distinct_insert_key)
next
  case (Some a)
  then have "sessions_set ss k v = map (\<lambda>(k', v'). if k' = k then (k', v) else (k', v')) ss"
    by (simp add: sessions_set_def)
  with assms show ?thesis by (simp only: keys_replace)
qed

lemma distinct_sessions_delete:
  "distinct (map fst ss) \<Longrightarrow> distinct (map fst (sessions_delete ss k))"
  by (simp add: sessions_delete_def distinct_map_filter)

lemma map_of_replace:
  "map_of ps k = Some v0 \<Longrightarrow>
   map_of (map (\<lambda>(k', v'). if k' = k then (k', v) else (k', v')) ps) k = Some v"
  by (induction ps) (auto split: if_splits)

lemma map_of_insert_key: "map_of ps k = None \<Longrightarrow> map_of (insert_key k v ps) k = Some v"
  by (induction ps) (auto split: if_splits)

lemma map_of_sessions_set:
  "k \<noteq> ''__proto__'' \<or> map_of ss k \<noteq> None \<Longrightarrow> map_of (sessions_set ss k v) k = Some v"
  by (auto simp: sessions_set_def map_of_replace map_of_insert_key)

lemma filter_key_distinct:
  "distinct (map fst ps) \<Longrightarrow> map_of ps k = Some v \<Longrightarrow>
   filter (\<lambda>(k', v'). k' = k) ps = [(k, v)]"
proof (induction ps)
  case Nil
  then show ?case by simp
next
  case (Cons p ps)
  obtain k' v' where p: "p = (k', v')" by (cases p)
  show ?case
  proof (cases "k' = k")
    case True
    with Cons.prems p have "k \<notin> fst ` set ps" and "v' = v" by auto
    then have "filter (\<lambda>(k', v'). k' = k) ps = []" by (force simp: filter_empty_conv)
    with True p \<open>v' = v\<close> show ?thesis by simp
  next
    case False
    with Cons p show ?thesis by simp
  qed
qed

lemma sessions_delete_twice: "sessions_delete (sessions_delete ss k) k = sessions_delete ss k"
  by (simp add: sessions_delete_def)

lemma key_invariant_replace:
  "key_invariant ps \<Longrightarrow> k = sessionId v \<Longrightarrow>
   key_invariant (map (\<lambda>(k', v'). if k' = k then (k', v) else (k', v')) ps)"
  by (auto simp: key_invariant_def list_all_iff split: if_splits)

lemma key_invariant_insert_key:
  "key_invariant ps \<Longrightarrow> k = sessionId v \<Longrightarrow> key_invariant (insert_key k v ps)"
  by (auto simp: key_invariant_def list_all_iff set_insert_key)

lemma key_invariant_sessions_set:
  "key_invariant ss \<Longrightarrow> k = sessionId v \<Longrightarrow> key_invariant (sessions_set ss k v)"
  by (simp add: sessions_set_def key_invariant_replace key_invariant_insert_key)

lemma key_invariant_sessions_delete:
  "key_invariant ss \<Longrightarrow> key_invariant (sessions_delete ss k)"
  by (auto simp: key_invariant_def sessions_delete_def list_all_iff)

lemma key_invariant_lookup:
  "key_invariant ss \<Longrightarrow> map_of ss k = Some entry \<Longrightarrow> k = sessionId entry"
  by (auto simp: key_invariant_def list_all_iff dest!: map_of_SomeD)

subsection \<open>Mutations\<close>

text \<open>What a load finds after a mutation that returned.\<close>

lemma registerSession_result:
  assumes "registerSession entry s = Inr s'"
  shows "\<exists>ss. sessions_of (loadRegistry s) = Inr ss
     \<and> sessions_of (loadRegistry s') = Inr (sessions_set ss (sessionId entry) entry)"
proof -
  from assms obtain ss where ss: "sessions_of (loadRegistry s) = Inr ss"
    and saved: "saveRegistry \<lparr>sessions = sessions_set ss (sessionId entry) entry\<rparr> s = Inr s'"
    by (auto simp: registerSession_def split: sum.splits)
  from ss have "distinct (map fst ss)" by (auto dest: sessions_of_sound)
  then have "distinct (map fst (sessions_set ss (sessionId entry) entry))"
    by (rule distinct_sessions_set)
  with saved ss show ?thesis
    by (auto simp: loadRegistry_after_save sessions_of_registry_json)
qed

lemma updateRegistryStatus_result:
  assumes "sessions_of (loadRegistry s) = Inr ss" and "updateRegistryStatus now sid st s = Inr s'"
  shows "sessions_of (loadRegistry s') =
     Inr (case sessions_get ss sid of
            Own entry \<Rightarrow> sessions_set ss sid (entry\<lparr>status := st, updatedAt := now\<rparr>)
          | Inherited \<Rightarrow> ss
          | Undefined \<Rightarrow> ss)"
proof -
  note d = sessions_of_distinct [OF assms(1)]
  show ?thesis
  proof (cases "sessions_get ss sid")
    case (Own entry)
    with assms have "saveRegistry
        \<lparr>sessions = sessions_set ss sid (entry\<lparr>status := st, updatedAt := now\<rparr>)\<rparr> s = Inr s'"
      by (simp add: updateRegistryStatus_def)
    then show ?thesis using Own distinct_sessions_set [OF d] by (simp add: saved_sessions)
  next
    case Inherited
    with assms have "saveRegistry \<lparr>sessions = ss\<rparr> s = Inr s'"
      by (simp add: updateRegistryStatus_def)
    then show ?thesis using Inherited d by (simp add: saved_sessions)
  next
    case Undefined
    with assms show ?thesis by (simp add: updateRegistryStatus_def)
  qed
qed

lemma unregisterSession_result:
  assumes "sessions_of (loadRegistry s) = Inr ss" and "unregisterSession sid s = Inr s'"
  shows "sessions_of (loadRegistry s') = Inr (sessions_delete ss sid)"
proof -
  from assms have "saveRegistry \<lparr>sessions = sessions_delete ss sid\<rparr> s = Inr s'"
    by (simp add: unregisterSession_def)
  then show ?thesis
    using distinct_sessions_delete [OF sessions_of_distinct [OF assms(1)]]
    by (simp add: saved_sessions)
qed

text \<open>On a well-typed document, a mutation returns when the file system can be written.\<close>

lemma registerSession_succeeds:
  "sessions_of (loadRegistry s) = Inr ss \<Longrightarrow> writable s \<Longrightarrow> \<exists>s'. registerSession entry s = Inr s'"
  by (simp add: registerSession_def saveRegistry_eq)

lemma updateRegistryStatus_succeeds:
  "sessions_of (loadRegistry s) = Inr ss \<Longrightarrow> writable s \<Longrightarrow>
   \<exists>s'. updateRegistryStatus now sid st s = Inr s'"
  by (simp add: updateRegistryStatus_def saveRegistry_eq split: property.splits)

lemma unregisterSession_succeeds:
  "sessions_of (loadRegistry s) = Inr ss \<Longrightarrow> writable s \<Longrightarrow> \<exists>s'. unregisterSession sid s = Inr s'"
  by (simp add: unregisterSession_def saveRegistry_eq)

lemma registerSession_overwrites:
  assumes "registerSession e s = Inr s1" and "sessionId e' = sessionId e"
    and "sessionId e \<noteq> ''__proto__''"
  shows "\<exists>s2 ss2. registerSession e' s1 = Inr s2 \<and> sessions_of (loadRegistry s2) = Inr ss2
     \<and> filter (\<lambda>(k, entry). k = sessionId e) ss2 = [(sessionId e, e')]"
proof -
  from registerSession_result [OF assms(1)] obtain ss
    where ss1: "sessions_of (loadRegistry s1) = Inr (sessions_set ss (sessionId e) e)"
    by blast
  let ?ss1 = "sessions_set ss (sessionId e) e"
  let ?ss2 = "sessions_set ?ss1 (sessionId e) e'"
  from assms(1) have w: "writable s1"
    by (auto simp: registerSession_def saveRegistry_eq split: sum.splits if_splits)
  with ss1 assms(2) obtain s2 where s2: "registerSession e' s1 = Inr s2"
    by (simp add: registerSession_def saveRegistry_eq)
  from registerSession_result [OF s2] ss1 assms(2)
  have l2: "sessions_of (loadRegistry s2) = Inr ?ss2" by simp
  then have d2: "distinct (map fst ?ss2)" by (auto dest: sessions_of_sound)
  from assms(3) have "map_of ?ss2 (sessionId e) = Some e'"
    by (simp add: map_of_sessions_set)
  with d2 have "filter (\<lambda>(k, entry). k = sessionId e) ?ss2 = [(sessionId e, e')]"
    by (rule filter_key_distinct)
  with s2 l2 show ?thesis by blast
qed

text \<open>
  C5. Two registrations under one ID other than \<^verbatim>\<open>__proto__\<close> leave exactly one entry under
  it, the second (\<open>registerSession_overwrites\<close>). The specification says so of every ID.
  With the ID \<^verbatim>\<open>__proto__\<close> the assignment \<^verbatim>\<open>registry.sessions[entry.sessionId] = entry\<close> sets
  the prototype of the object and stores nothing: both registrations save, and the
  registry has no entry after them.
\<close>

theorem registerSession_proto_not_stored:
  "sessionId (entry_a\<lparr>sessionId := ''__proto__''\<rparr>) = sessionId (entry_b\<lparr>sessionId := ''__proto__''\<rparr>)
   \<and> registerSession (entry_a\<lparr>sessionId := ''__proto__''\<rparr>) fresh_fs = Inr once_saved
   \<and> registerSession (entry_b\<lparr>sessionId := ''__proto__''\<rparr>) once_saved =
       Inr (once_saved\<lparr>writes := 2\<rparr>)
   \<and> registry_file (once_saved\<lparr>writes := 2\<rparr>) = Json empty_registry
   \<and> listAllSessions (once_saved\<lparr>writes := 2\<rparr>) = Inr []"
proof -
  have set_proto: "sessions_set [] ''__proto__'' (v :: SessionRegistryEntry) = []" for v
    by (simp add: sessions_set_def)
  have first: "registerSession (entry_a\<lparr>sessionId := ''__proto__''\<rparr>) fresh_fs = Inr once_saved"
    by (simp add: registerSession_def sessions_of_load_fresh set_proto saveRegistry_eq
        fresh_fs_fields registry_json_empty once_saved_def)
  have second: "registerSession (entry_b\<lparr>sessionId := ''__proto__''\<rparr>) once_saved =
      Inr (once_saved\<lparr>writes := 2\<rparr>)"
    by (simp add: registerSession_def sessions_of_load_once_saved set_proto saveRegistry_eq
        once_saved_fields registry_json_empty)
  have content: "registry_file (once_saved\<lparr>writes := 2\<rparr>) = Json empty_registry"
    by (simp add: once_saved_fields)
  then have "loadRegistry (once_saved\<lparr>writes := 2\<rparr>) = empty_registry"
    using loadRegistry_Json_registry [of "once_saved\<lparr>writes := 2\<rparr>" "\<lparr>sessions = []\<rparr>"]
    by (simp add: registry_json_empty)
  then have "listAllSessions (once_saved\<lparr>writes := 2\<rparr>) = Inr []"
    by (simp add: listAllSessions_def sessions_of_empty)
  with first second content show ?thesis by simp
qed

lemma updateRegistryStatus_unknown_id:
  assumes "sessions_of (loadRegistry s) = Inr ss"
    and "map_of ss sid = None" and "sid \<notin> set Object_prototype_names"
  shows "updateRegistryStatus now sid st s = Inr s"
  using assms by (simp add: updateRegistryStatus_def sessions_get_def)

lemma constructor_inherited: "''constructor'' \<in> set Object_prototype_names"
  by (simp add: Object_prototype_names_def)

text \<open>
  C4. For an ID that is neither a key of \<^verbatim>\<open>sessions\<close> nor a property name of
  \<^verbatim>\<open>Object.prototype\<close>, \<open>updateRegistryStatus\<close> returns the file system as it was
  (\<open>updateRegistryStatus_unknown_id\<close>). The specification says so of every absent ID. With
  the ID \<^verbatim>\<open>constructor\<close> and no registry file, the loaded registry has no entry,
  \<^verbatim>\<open>registry.sessions[sessionId]\<close> is the inherited function \<^verbatim>\<open>Object\<close>, the test \<^verbatim>\<open>if (entry)\<close>
  succeeds, and the registry is saved: the file is created and one write is counted.
\<close>

theorem updateRegistryStatus_constructor_saves:
  "sessions_of (loadRegistry fresh_fs) = Inr []
   \<and> updateRegistryStatus now ''constructor'' paused fresh_fs = Inr once_saved
   \<and> registry_file fresh_fs = Absent
   \<and> registry_file once_saved = Json empty_registry
   \<and> writes once_saved = Suc (writes fresh_fs)"
proof -
  have "sessions_get ([] :: sessions_map) ''constructor'' = Inherited"
    by (simp add: sessions_get_def constructor_inherited)
  then have "updateRegistryStatus now ''constructor'' paused fresh_fs = Inr once_saved"
    by (simp add: updateRegistryStatus_def sessions_of_load_fresh saveRegistry_eq
        registry_json_empty fresh_fs_fields once_saved_def)
  then show ?thesis
    by (simp add: sessions_of_load_fresh fresh_fs_fields once_saved_fields)
qed

text \<open>
  C9. When \<open>unregisterSession sid\<close> has returned, a second call returns too, and the file
  system after it differs from the one before it in the count of writes only: the same
  file, one more write. The first call writes as well, whether \<open>sid\<close> was a key or not.
\<close>

theorem unregisterSession_idempotent:
  assumes "unregisterSession sid s = Inr s1"
  shows "\<exists>s2. unregisterSession sid s1 = Inr s2
     \<and> registry_file s2 = registry_file s1
     \<and> loadRegistry s2 = loadRegistry s1
     \<and> s2 = s1\<lparr>writes := Suc (writes s1)\<rparr>
     \<and> writes s1 = Suc (writes s)"
proof -
  from assms obtain ss where ss: "sessions_of (loadRegistry s) = Inr ss"
    and saved: "saveRegistry \<lparr>sessions = sessions_delete ss sid\<rparr> s = Inr s1"
    by (auto simp: unregisterSession_def split: sum.splits)
  from saved have w: "writable s"
    and s1: "s1 = s\<lparr>dir_exists := True,
        registry_file := Json (registry_json \<lparr>sessions = sessions_delete ss sid\<rparr>),
        writes := Suc (writes s)\<rparr>"
    by (auto simp: saveRegistry_eq split: if_splits)
  from unregisterSession_result [OF ss assms]
  have l1: "sessions_of (loadRegistry s1) = Inr (sessions_delete ss sid)" .
  have "unregisterSession sid s1 = Inr (s1\<lparr>writes := Suc (writes s1)\<rparr>)"
    using w by (simp add: unregisterSession_def l1 sessions_delete_twice saveRegistry_eq)
      (simp add: s1)
  moreover have "loadRegistry (s1\<lparr>writes := Suc (writes s1)\<rparr>) = loadRegistry s1"
    by (simp add: loadRegistry_def try_load_def)
  ultimately show ?thesis using s1 by simp
qed

theorem unregisterSession_idempotent_witness:
  "unregisterSession ''a'' two_sessions =
     Inr (two_sessions\<lparr>registry_file := Json (registry_json \<lparr>sessions = [(''b'', entry_b)]\<rparr>),
                       writes := 1\<rparr>)
   \<and> unregisterSession ''a''
       (two_sessions\<lparr>registry_file := Json (registry_json \<lparr>sessions = [(''b'', entry_b)]\<rparr>),
                      writes := 1\<rparr>) =
     Inr (two_sessions\<lparr>registry_file := Json (registry_json \<lparr>sessions = [(''b'', entry_b)]\<rparr>),
                       writes := 2\<rparr>)"
proof -
  have first: "unregisterSession ''a'' two_sessions =
     Inr (two_sessions\<lparr>registry_file := Json (registry_json \<lparr>sessions = [(''b'', entry_b)]\<rparr>),
                       writes := 1\<rparr>)"
    by (simp add: unregisterSession_def sessions_of_load_two sessions_delete_def saveRegistry_eq
        two_sessions_fields)
  from unregisterSession_idempotent [OF first] first show ?thesis by auto
qed

subsection \<open>Maintenance\<close>

text \<open>The loop with a predicate that always resolves.\<close>

lemma cleanup_loop_pure:
  "cleanup_loop (\<lambda>c. Inr (isAlive c)) xs ss n =
     Inr (filter (\<lambda>(k, entry). k \<notin> fst ` set (stale_entries isAlive xs)) ss,
          n + length (stale_entries isAlive xs))"
proof (induction xs arbitrary: ss n)
  case Nil
  then show ?case by (simp add: stale_entries_def)
next
  case (Cons x xs)
  obtain k entry where x: "x = (k, entry)" by (cases x)
  show ?case
  proof (cases "isAlive (cwd entry)")
    case True
    with Cons.IH x show ?thesis by (simp add: stale_entries_def)
  next
    case False
    have "filter (\<lambda>(k', entry'). k' \<notin> fst ` set (stale_entries isAlive xs))
            (sessions_delete ss k)
        = filter (\<lambda>(k', entry'). k' \<notin> fst ` set (stale_entries isAlive (x # xs))) ss"
      using False x by (auto simp: sessions_delete_def stale_entries_def intro!: filter_cong)
    with Cons.IH [of "sessions_delete ss k" "n + 1"] False x show ?thesis
      by (simp add: stale_entries_def)
  qed
qed

lemma filter_stale_keys:
  assumes "distinct (map fst ss)"
  shows "filter (\<lambda>(k, entry). k \<notin> fst ` set (stale_entries isAlive ss)) ss
       = live_entries isAlive ss"
  unfolding live_entries_def
proof (rule filter_cong [OF refl])
  fix x assume x: "x \<in> set ss"
  obtain k entry where kx: "x = (k, entry)" by (cases x)
  have "k \<in> fst ` set (stale_entries isAlive ss) \<longleftrightarrow> \<not> isAlive (cwd entry)"
  proof
    assume "k \<in> fst ` set (stale_entries isAlive ss)"
    then obtain entry' where e': "(k, entry') \<in> set ss" "\<not> isAlive (cwd entry')"
      by (auto simp: stale_entries_def)
    from assms e'(1) x kx have "entry' = entry" by (auto dest: eq_key_imp_eq_value)
    with e'(2) show "\<not> isAlive (cwd entry)" by simp
  next
    assume "\<not> isAlive (cwd entry)"
    with x kx show "k \<in> fst ` set (stale_entries isAlive ss)"
      by (force simp: stale_entries_def)
  qed
  with kx show "(case x of (k, entry) \<Rightarrow> k \<notin> fst ` set (stale_entries isAlive ss))
      = (case x of (k, entry) \<Rightarrow> isAlive (cwd entry))"
    by simp
qed

lemma distinct_live_entries:
  "distinct (map fst ss) \<Longrightarrow> distinct (map fst (live_entries isAlive ss))"
  by (simp add: live_entries_def distinct_map_filter)

lemma live_entries_all: "stale_entries isAlive ss = [] \<Longrightarrow> live_entries isAlive ss = ss"
  by (induction ss) (auto simp: stale_entries_def live_entries_def split: if_splits)

text \<open>
  C3. \<open>isAlive\<close> is the caller's predicate on the working directory. On a registry whose
  document is \<open>ss\<close>, \<open>cleanupStaleRegistryEntries\<close> removes exactly the entries the predicate
  rejects: what a later load finds is \<open>live_entries isAlive ss\<close>, the accepted entries, each
  as it was and in the order it had. It returns the number of the rejected entries. When
  that number is 0 the file system is returned as it was, with no write; otherwise the
  file is written once (and the call fails when the write does).
\<close>

theorem cleanup_removes_exactly_stale:
  assumes "sessions_of (loadRegistry s) = Inr ss"
  shows "cleanupStaleRegistryEntries (\<lambda>c. Inr (isAlive c)) s =
     (if stale_entries isAlive ss = [] then Inr (s, 0)
      else if writable s
      then Inr (s\<lparr>dir_exists := True,
                  registry_file := Json (registry_json \<lparr>sessions = live_entries isAlive ss\<rparr>),
                  writes := Suc (writes s)\<rparr>,
                length (stale_entries isAlive ss))
      else Inl WriteError)
   \<and> (\<forall>s' n. cleanupStaleRegistryEntries (\<lambda>c. Inr (isAlive c)) s = Inr (s', n) \<longrightarrow>
         sessions_of (loadRegistry s') = Inr (live_entries isAlive ss)
         \<and> n = length (stale_entries isAlive ss)
         \<and> (n = 0 \<longrightarrow> s' = s))"
proof -
  from assms have d: "distinct (map fst ss)" by (auto dest: sessions_of_sound)
  have run: "cleanupStaleRegistryEntries (\<lambda>c. Inr (isAlive c)) s =
     (if stale_entries isAlive ss = [] then Inr (s, 0)
      else if writable s
      then Inr (s\<lparr>dir_exists := True,
                  registry_file := Json (registry_json \<lparr>sessions = live_entries isAlive ss\<rparr>),
                  writes := Suc (writes s)\<rparr>,
                length (stale_entries isAlive ss))
      else Inl WriteError)"
    using assms
    by (simp add: cleanupStaleRegistryEntries_def cleanup_loop_pure filter_stale_keys [OF d]
        saveRegistry_eq)
  have after: "sessions_of (loadRegistry s') = Inr (live_entries isAlive ss)
      \<and> n = length (stale_entries isAlive ss) \<and> (n = 0 \<longrightarrow> s' = s)"
    if "cleanupStaleRegistryEntries (\<lambda>c. Inr (isAlive c)) s = Inr (s', n)" for s' n
  proof (cases "stale_entries isAlive ss = []")
    case True
    with run that assms show ?thesis by (simp add: live_entries_all)
  next
    case False
    with run that have s': "registry_file s' = Json (registry_json \<lparr>sessions = live_entries isAlive ss\<rparr>)"
      and n: "n = length (stale_entries isAlive ss)"
      by (auto split: if_splits)
    from s' have "loadRegistry s' = registry_json \<lparr>sessions = live_entries isAlive ss\<rparr>"
      by (rule loadRegistry_Json_registry)
    with n False d show ?thesis
      by (simp add: sessions_of_registry_json distinct_live_entries)
  qed
  from run after show ?thesis by blast
qed

theorem cleanup_removes_exactly_stale_witness:
  "cleanupStaleRegistryEntries (\<lambda>c. Inr (c = ''/x'')) two_sessions =
     Inr (two_sessions\<lparr>registry_file := Json (registry_json \<lparr>sessions = [(''a'', entry_a)]\<rparr>),
                       writes := 1\<rparr>, 1)
   \<and> cleanupStaleRegistryEntries (\<lambda>c. Inr True) two_sessions = Inr (two_sessions, 0)"
proof -
  have stale: "stale_entries (\<lambda>c. c = ''/x'') [(''a'', entry_a), (''b'', entry_b)] = [(''b'', entry_b)]"
    and live: "live_entries (\<lambda>c. c = ''/x'') [(''a'', entry_a), (''b'', entry_b)] = [(''a'', entry_a)]"
    and none: "stale_entries (\<lambda>c. True) [(''a'', entry_a), (''b'', entry_b)] = []"
    by (simp_all add: stale_entries_def live_entries_def entry_a_def entry_b_def)
  have w: "writable two_sessions" "writes two_sessions = 0"
    and d: "two_sessions\<lparr>dir_exists := True\<rparr> = two_sessions"
    by (simp_all add: two_sessions_def)
  from cleanup_removes_exactly_stale [OF sessions_of_load_two, of "\<lambda>c. c = ''/x''", THEN conjunct1]
    cleanup_removes_exactly_stale [OF sessions_of_load_two, of "\<lambda>c. True", THEN conjunct1]
  show ?thesis by (simp add: stale live none w d)
qed

text \<open>The loop with any function of the caller.\<close>

lemma cleanup_loop_invariants:
  "cleanup_loop checkSessionExists xs ss n = Inr (ss', n') \<Longrightarrow>
   distinct (map fst ss) \<Longrightarrow> key_invariant ss \<Longrightarrow>
   distinct (map fst ss') \<and> key_invariant ss'"
proof (induction xs arbitrary: ss n)
  case Nil
  then show ?case by simp
next
  case (Cons x xs)
  obtain k entry where x: "x = (k, entry)" by (cases x)
  from Cons.prems(1) x obtain exists where c: "checkSessionExists (cwd entry) = Inr exists"
    by (auto split: sum.splits)
  show ?case
  proof (cases exists)
    case True
    with Cons.prems x c have "cleanup_loop checkSessionExists xs ss n = Inr (ss', n')" by simp
    from Cons.IH [OF this Cons.prems(2,3)] show ?thesis .
  next
    case False
    with Cons.prems x c
    have "cleanup_loop checkSessionExists xs (sessions_delete ss k) (n + 1) = Inr (ss', n')"
      by simp
    from Cons.IH [OF this distinct_sessions_delete [OF Cons.prems(2)]
        key_invariant_sessions_delete [OF Cons.prems(3)]]
    show ?thesis .
  qed
qed

lemma cleanupStaleRegistryEntries_result:
  assumes "sessions_of (loadRegistry s) = Inr ss" and "key_invariant ss"
    and "cleanupStaleRegistryEntries checkSessionExists s = Inr (s', n)"
  shows "\<exists>ss'. sessions_of (loadRegistry s') = Inr ss' \<and> key_invariant ss'"
proof -
  from assms(1,3) obtain ss' cleaned
    where loop: "cleanup_loop checkSessionExists ss ss 0 = Inr (ss', cleaned)"
    by (auto simp: cleanupStaleRegistryEntries_def split: sum.splits)
  from cleanup_loop_invariants [OF loop sessions_of_distinct [OF assms(1)] assms(2)]
  have d: "distinct (map fst ss')" and k: "key_invariant ss'" by simp_all
  show ?thesis
  proof (cases "cleaned > 0")
    case True
    with assms(1,3) loop have "saveRegistry \<lparr>sessions = ss'\<rparr> s = Inr s'"
      by (auto simp: cleanupStaleRegistryEntries_def split: sum.splits)
    with d k show ?thesis by (auto simp: saved_sessions)
  next
    case False
    with assms(1,3) loop have "s' = s"
      by (simp add: cleanupStaleRegistryEntries_def)
    with assms(1,2) show ?thesis by simp
  qed
qed

lemma cleanupStaleRegistryEntries_succeeds:
  "sessions_of (loadRegistry s) = Inr ss \<Longrightarrow> writable s \<Longrightarrow>
   \<exists>s' n. cleanupStaleRegistryEntries (\<lambda>c. Inr (isAlive c)) s = Inr (s', n)"
  by (simp add: cleanupStaleRegistryEntries_def cleanup_loop_pure saveRegistry_eq)

subsection \<open>The key invariant\<close>

text \<open>
  C6. When every key of the loaded document is the \<^verbatim>\<open>sessionId\<close> of its entry, the same
  holds of the document that a later load finds after \<open>registerSession\<close>,
  \<open>updateRegistryStatus\<close>, \<open>unregisterSession\<close> or \<open>cleanupStaleRegistryEntries\<close> (with any
  function of the caller) has returned.
\<close>

theorem mutations_preserve_key_invariant:
  assumes "sessions_of (loadRegistry s) = Inr ss" and "key_invariant ss"
  shows "(registerSession entry s = Inr s' \<longrightarrow>
            (\<exists>ss'. sessions_of (loadRegistry s') = Inr ss' \<and> key_invariant ss'))
       \<and> (updateRegistryStatus now sid st s = Inr s' \<longrightarrow>
            (\<exists>ss'. sessions_of (loadRegistry s') = Inr ss' \<and> key_invariant ss'))
       \<and> (unregisterSession sid s = Inr s' \<longrightarrow>
            (\<exists>ss'. sessions_of (loadRegistry s') = Inr ss' \<and> key_invariant ss'))
       \<and> (cleanupStaleRegistryEntries checkSessionExists s = Inr (s', n) \<longrightarrow>
            (\<exists>ss'. sessions_of (loadRegistry s') = Inr ss' \<and> key_invariant ss'))"
proof (intro conjI impI)
  assume "registerSession entry s = Inr s'"
  from registerSession_result [OF this] assms(1)
  have "sessions_of (loadRegistry s') = Inr (sessions_set ss (sessionId entry) entry)" by simp
  with key_invariant_sessions_set [OF assms(2) refl]
  show "\<exists>ss'. sessions_of (loadRegistry s') = Inr ss' \<and> key_invariant ss'" by blast
next
  assume "updateRegistryStatus now sid st s = Inr s'"
  note r = updateRegistryStatus_result [OF assms(1) this]
  have "key_invariant (case sessions_get ss sid of
            Own entry \<Rightarrow> sessions_set ss sid (entry\<lparr>status := st, updatedAt := now\<rparr>)
          | Inherited \<Rightarrow> ss
          | Undefined \<Rightarrow> ss)"
  proof (cases "sessions_get ss sid")
    case (Own e)
    then have "map_of ss sid = Some e"
      by (auto simp: sessions_get_def split: option.splits if_splits)
    with assms(2) have "sid = sessionId (e\<lparr>status := st, updatedAt := now\<rparr>)"
      by (simp add: key_invariant_lookup)
    with Own assms(2) show ?thesis by (simp add: key_invariant_sessions_set)
  qed (simp_all add: assms(2))
  with r show "\<exists>ss'. sessions_of (loadRegistry s') = Inr ss' \<and> key_invariant ss'" by blast
next
  assume "unregisterSession sid s = Inr s'"
  from unregisterSession_result [OF assms(1) this] key_invariant_sessions_delete [OF assms(2)]
  show "\<exists>ss'. sessions_of (loadRegistry s') = Inr ss' \<and> key_invariant ss'" by blast
next
  assume "cleanupStaleRegistryEntries checkSessionExists s = Inr (s', n)"
  with assms show "\<exists>ss'. sessions_of (loadRegistry s') = Inr ss' \<and> key_invariant ss'"
    by (rule cleanupStaleRegistryEntries_result)
qed

theorem mutations_preserve_key_invariant_witness:
  "key_invariant [(''a'', entry_a), (''b'', entry_b)]
   \<and> (\<exists>s' ss'. registerSession (entry_a\<lparr>cwd := ''/z''\<rparr>) two_sessions = Inr s'
         \<and> sessions_of (loadRegistry s') = Inr ss' \<and> key_invariant ss')
   \<and> (\<exists>s' ss'. updateRegistryStatus ''2025-02-01T00:00:00.000Z'' ''a'' paused two_sessions = Inr s'
         \<and> sessions_of (loadRegistry s') = Inr ss' \<and> key_invariant ss')
   \<and> (\<exists>s' ss'. unregisterSession ''a'' two_sessions = Inr s'
         \<and> sessions_of (loadRegistry s') = Inr ss' \<and> key_invariant ss')
   \<and> (\<exists>s' n ss'. cleanupStaleRegistryEntries (\<lambda>c. Inr (c = ''/x'')) two_sessions = Inr (s', n)
         \<and> sessions_of (loadRegistry s') = Inr ss' \<and> key_invariant ss')"
proof -
  note l = sessions_of_load_two and w = two_sessions_fields(2) and k = key_invariant_two
  obtain s1 where s1: "registerSession (entry_a\<lparr>cwd := ''/z''\<rparr>) two_sessions = Inr s1"
    using registerSession_succeeds [OF l w] by blast
  obtain s2 where s2: "updateRegistryStatus ''2025-02-01T00:00:00.000Z'' ''a'' paused two_sessions = Inr s2"
    using updateRegistryStatus_succeeds [OF l w] by blast
  obtain s3 where s3: "unregisterSession ''a'' two_sessions = Inr s3"
    using unregisterSession_succeeds [OF l w] by blast
  obtain s4 n where s4: "cleanupStaleRegistryEntries (\<lambda>c. Inr (c = ''/x'')) two_sessions = Inr (s4, n)"
    using cleanupStaleRegistryEntries_succeeds [OF l w, of "\<lambda>c. c = ''/x''"] by blast
  from mutations_preserve_key_invariant [OF l k, of "entry_a\<lparr>cwd := ''/z''\<rparr>" s1] s1
  have r1: "\<exists>s' ss'. registerSession (entry_a\<lparr>cwd := ''/z''\<rparr>) two_sessions = Inr s'
      \<and> sessions_of (loadRegistry s') = Inr ss' \<and> key_invariant ss'"
    by blast
  from mutations_preserve_key_invariant
    [OF l k, of _ s2 "''2025-02-01T00:00:00.000Z''" "''a''" paused] s2
  have r2: "\<exists>s' ss'. updateRegistryStatus ''2025-02-01T00:00:00.000Z'' ''a'' paused two_sessions = Inr s'
      \<and> sessions_of (loadRegistry s') = Inr ss' \<and> key_invariant ss'"
    by blast
  from mutations_preserve_key_invariant [OF l k, of _ s3 _ "''a''"] s3
  have r3: "\<exists>s' ss'. unregisterSession ''a'' two_sessions = Inr s'
      \<and> sessions_of (loadRegistry s') = Inr ss' \<and> key_invariant ss'"
    by blast
  from mutations_preserve_key_invariant
    [OF l k, of _ s4 _ _ _ "\<lambda>c. Inr (c = ''/x'')" n] s4
  have r4: "\<exists>s' n ss'. cleanupStaleRegistryEntries (\<lambda>c. Inr (c = ''/x'')) two_sessions = Inr (s', n)
      \<and> sessions_of (loadRegistry s') = Inr ss' \<and> key_invariant ss'"
    by blast
  from k r1 r2 r3 r4 show ?thesis by (intro conjI)
qed

subsection \<open>Queries\<close>

lemma resumable_iff:
  "status entry \<in> set resumableStatuses \<longleftrightarrow>
   status entry = running \<or> status entry = paused \<or> status entry = interrupted"
  by (auto simp: resumableStatuses_def)

lemma resumable_iff_not_finished:
  "status entry \<in> set resumableStatuses \<longleftrightarrow> status entry \<noteq> completed \<and> status entry \<noteq> failed"
  by (cases "status entry") (auto simp: resumableStatuses_def)

text \<open>
  C7. \<open>listResumableSessions\<close> returns the entries whose status is running, paused or
  interrupted, in the order of \<^verbatim>\<open>Object.values\<close>; these are the entries whose status is
  neither completed nor failed.
\<close>

theorem listResumableSessions_exact:
  assumes "sessions_of (loadRegistry s) = Inr ss"
  shows "listResumableSessions s =
       Inr (filter (\<lambda>entry. status entry = running \<or> status entry = paused
                            \<or> status entry = interrupted) (map snd ss))
     \<and> listResumableSessions s =
       Inr (filter (\<lambda>entry. status entry \<noteq> completed \<and> status entry \<noteq> failed) (map snd ss))"
  using assms
  by (simp add: listResumableSessions_def resumable_iff)
     (simp add: resumable_iff [symmetric] resumable_iff_not_finished)

theorem listResumableSessions_exact_witness:
  "listResumableSessions two_sessions = Inr [entry_a] \<and> status entry_b = completed"
  using listResumableSessions_exact [OF sessions_of_load_two]
  by (simp add: entry_a_def entry_b_def)

lemma startsWith_iff: "startsWith k pre \<longleftrightarrow> (\<exists>rest. k = pre @ rest)"
  by (induction k pre rule: startsWith.induct) auto

lemma key_invariant_filter_keys:
  "key_invariant ss \<Longrightarrow>
   map snd (filter (\<lambda>(k, entry). P k) ss) = filter (\<lambda>entry. P (sessionId entry)) (map snd ss)"
  by (induction ss) (auto simp: key_invariant_def)

text \<open>
  C8. \<open>findSessionsByPrefix x\<close> returns, in enumeration order, the entries whose key
  is \<open>x\<close> followed by some rest, characters compared as they are; the empty prefix gives
  every entry. Where the keys are the \<^verbatim>\<open>sessionId\<close>s of the entries, this is the same as
  selecting on the \<^verbatim>\<open>sessionId\<close> field.
\<close>

theorem findSessionsByPrefix_exact:
  assumes "sessions_of (loadRegistry s) = Inr ss"
  shows "findSessionsByPrefix x s = Inr (map snd (filter (\<lambda>(k, entry). \<exists>rest. k = x @ rest) ss))
     \<and> findSessionsByPrefix [] s = Inr (map snd ss)
     \<and> (key_invariant ss \<longrightarrow>
          findSessionsByPrefix x s =
            Inr (filter (\<lambda>entry. \<exists>rest. sessionId entry = x @ rest) (map snd ss)))"
proof -
  have found: "findSessionsByPrefix p s = Inr (map snd (filter (\<lambda>(k, entry). \<exists>rest. k = p @ rest) ss))"
    for p
    using assms by (simp add: findSessionsByPrefix_def startsWith_iff)
  from found [of "[]"] have "findSessionsByPrefix [] s = Inr (map snd ss)" by simp
  with found [of x] show ?thesis by (simp add: key_invariant_filter_keys)
qed

theorem findSessionsByPrefix_exact_witness:
  "key_invariant [(''a'', entry_a), (''b'', entry_b)]
   \<and> findSessionsByPrefix ''zz'' two_sessions = Inr []
   \<and> findSessionsByPrefix ''a'' two_sessions = Inr [entry_a]
   \<and> findSessionsByPrefix [] two_sessions = Inr [entry_a, entry_b]"
  using findSessionsByPrefix_exact [OF sessions_of_load_two, of "''zz''"]
    findSessionsByPrefix_exact [OF sessions_of_load_two, of "''a''"]
  by (simp add: key_invariant_two)

subsection \<open>Desktop notifications\<close>

text \<open>The conversion the \<^verbatim>\<open>catch\<close> block attempts.\<close>

lemma catch_block_cases:
  "catch_block err =
     (case (case err of ErrorValue c \<Rightarrow> c | OtherValue c \<Rightarrow> c) of
        Some message \<Rightarrow> (Inr (), [warning message])
      | None \<Rightarrow> (Inl TypeError, []))"
  by (cases err rule: catch_block.cases) simp_all

text \<open>
  When \<^verbatim>\<open>notifier.notify\<close> returns, so does \<open>sendNotification\<close>, and the warnings are the
  ones of the callback: one for each call with an \<^verbatim>\<open>Error\<close> whose message converts.
\<close>

lemma sendNotification_notify_returns:
  assumes "completes (notify \<lparr>n_title = title options, n_message = body options,
                              n_icon = icon options, n_sound = False\<rparr>) = None"
  shows "returned (sendNotification notify options) = Inr ()"
    and "warned (sendNotification notify options) =
           concat (map (\<lambda>arg. snd (callback arg))
             (calls_during (notify \<lparr>n_title = title options, n_message = body options,
                                     n_icon = icon options, n_sound = False\<rparr>)))"
  using assms by (simp_all add: sendNotification_def Let_def)

text \<open>
  When \<^verbatim>\<open>notifier.notify\<close> throws a value whose conversion gives \<open>message\<close>, the exception is
  swallowed and the warning with that message is the last line logged.
\<close>

lemma sendNotification_swallows:
  assumes "completes (notify \<lparr>n_title = title options, n_message = body options,
                              n_icon = icon options, n_sound = False\<rparr>) = Some err"
    and "(case err of ErrorValue c \<Rightarrow> c | OtherValue c \<Rightarrow> c) = Some message"
  shows "returned (sendNotification notify options) = Inr ()"
    and "\<exists>during. warned (sendNotification notify options) = during @ [warning message]"
  using assms by (simp_all add: sendNotification_def Let_def catch_block_cases)

text \<open>An exception leaves \<open>sendNotification\<close> exactly when \<^verbatim>\<open>notifier.notify\<close> throws a value
  whose conversion throws.\<close>

lemma sendNotification_throws_iff:
  "returned (sendNotification notify options) \<noteq> Inr () \<longleftrightarrow>
     (\<exists>err. completes (notify \<lparr>n_title = title options, n_message = body options,
                                n_icon = icon options, n_sound = False\<rparr>) = Some err
        \<and> (case err of ErrorValue c \<Rightarrow> c | OtherValue c \<Rightarrow> c) = None)"
  by (auto simp: sendNotification_def Let_def catch_block_cases split: option.splits)

lemma sendNotification_throws_error:
  "sendNotification throws_error options =
     \<lparr>returned = Inr (),
      warned = [''[notifications] Failed to send notification: spawn ENOENT''],
      warned_later = []\<rparr>"
  by (simp add: sendNotification_def throws_error_def warning_def)


end
